theory Spec2Isabelle
  imports Main "HOL-Library.AList" "HOL-Library.Multiset"
begin

section \<open>Path handling used by the classifier\<close>

text \<open>
  The classifier of \<^verbatim>\<open>lib_yaml.py\<close> relies on \<^verbatim>\<open>pathlib.Path(s).suffix\<close> and the
  collector on \<^verbatim>\<open>Path.stem\<close>. Both are modelled for the POSIX flavour of pathlib as
  documented for CPython 3.4 to 3.13: the path is split at \<^verbatim>\<open>/\<close>, empty components and
  \<^verbatim>\<open>.\<close> components are dropped, the name is the last remaining component (or the empty
  string), and the suffix starts at the last dot of the name provided that dot is neither
  the first nor the last character of the name.
\<close>

fun split_sep :: "string \<Rightarrow> string list" where
  "split_sep [] = [[]]"
| "split_sep (c # cs) =
     (if c = CHR ''/'' then [] # split_sep cs
      else (case split_sep cs of [] \<Rightarrow> [[c]] | p # ps \<Rightarrow> (c # p) # ps))"

definition path_parts :: "string \<Rightarrow> string list" where
  "path_parts s = filter (\<lambda>x. x \<noteq> [] \<and> x \<noteq> ''.'') (split_sep s)"

definition path_name :: "string \<Rightarrow> string" where
  "path_name s = (case path_parts s of [] \<Rightarrow> [] | _ # _ \<Rightarrow> last (path_parts s))"

text \<open>\<^verbatim>\<open>str.rfind\<close>: the index of the last occurrence, or \<open>-1\<close>.\<close>

fun rfind_from :: "char \<Rightarrow> string \<Rightarrow> int \<Rightarrow> int \<Rightarrow> int" where
  "rfind_from c [] i found = found"
| "rfind_from c (x # xs) i found = rfind_from c xs (i + 1) (if x = c then i else found)"

definition rfind :: "string \<Rightarrow> char \<Rightarrow> int" where
  "rfind s c = rfind_from c s 0 (- 1)"

definition suffix :: "string \<Rightarrow> string" where
  "suffix p =
     (let name = path_name p; i = rfind name CHR ''.'' in
      if 0 < i \<and> i < int (length name) - 1 then drop (nat i) name else [])"

definition stem :: "string \<Rightarrow> string" where
  "stem p =
     (let name = path_name p; i = rfind name CHR ''.'' in
      if 0 < i \<and> i < int (length name) - 1 then take (nat i) name else name)"

section \<open>Document classifier\<close>

text \<open>
  \<^verbatim>\<open>class FILEextension(enum.Enum)\<close> has the members \<^verbatim>\<open>YAMLext = 'yml', 'yaml'\<close> and
  \<^verbatim>\<open>OTHERext = None\<close>. Calling the enumeration on a string never matches a member value
  (the values are a tuple and \<^verbatim>\<open>None\<close>), so the call is answered by \<^verbatim>\<open>_missing_\<close>.
\<close>

datatype FILEextension = YAMLext | OTHERext

definition YAMLext_value :: "string list" where
  "YAMLext_value = [''yml'', ''yaml'']"

definition FILEextension_missing :: "string \<Rightarrow> FILEextension" where
  "FILEextension_missing file_name_or_extension =
     (if file_name_or_extension \<in> set YAMLext_value \<or>
         drop 1 (suffix file_name_or_extension) \<in> set YAMLext_value
      then YAMLext else OTHERext)"

text \<open>
  The extension of a path in the words of the specification, not taken from the source:
  the part of the last path component after its final dot, empty when that component has
  no dot. The last path component is the one \<open>path_name\<close> gives: trailing separators and
  \<^verbatim>\<open>.\<close> components do not count.
\<close>

definition extensionOf :: "string \<Rightarrow> string" where
  "extensionOf p =
     (let name = path_name p; i = rfind name CHR ''.'' in
      if 0 \<le> i then drop (nat i + 1) name else [])"

section \<open>Parsed values, errors and the directory tree\<close>

text \<open>
  The values \<^verbatim>\<open>yaml.safe_load\<close> produces, as far as the collector inspects them: the
  collector only asks for their truth value (\<^verbatim>\<open>bool(new_item)\<close>). A dictionary is kept
  as an association list in insertion order, as Python dictionaries are.
\<close>

datatype pyval =
    PNone
  | PBool bool
  | PInt int
  | PStr string
  | PList "pyval list"
  | PDict "(string \<times> pyval) list"

fun truthy :: "pyval \<Rightarrow> bool" where
  "truthy PNone = False"
| "truthy (PBool b) = b"
| "truthy (PInt i) = (i \<noteq> 0)"
| "truthy (PStr s) = (s \<noteq> [])"
| "truthy (PList xs) = (xs \<noteq> [])"
| "truthy (PDict kvs) = (kvs \<noteq> [])"

text \<open>
  Everything the code can raise: \<^verbatim>\<open>YamlIOException\<close> is the module's own exception,
  \<^verbatim>\<open>YAMLError\<close> is a parse failure of \<^verbatim>\<open>yaml.safe_load\<close>, the others are what
  \<^verbatim>\<open>open\<close> and \<^verbatim>\<open>iterdir\<close> raise.
\<close>

datatype error =
    YamlIOException string
  | YAMLError string
  | OSError string
  | IsADirectoryError string
  | NotADirectoryError string
  | PermissionError string

text \<open>
  The file system below the root: a file carries its name and what
  \<^verbatim>\<open>yaml.safe_load(open(path, 'r'))\<close> does on it (a value, or the exception raised by
  opening or parsing); a directory carries its name and its children in the order in
  which \<^verbatim>\<open>iterdir()\<close> yields them. \<open>NoAccess\<close> is a directory that cannot be read:
  it carries its name and the exception that listing it with \<^verbatim>\<open>iterdir()\<close>, and
  likewise opening it with \<^verbatim>\<open>open\<close>, raises. The test \<^verbatim>\<open>is_dir()\<close> is taken to
  answer for every child that was listed.
\<close>

datatype entry =
    File string "error + pyval"
  | Dir string "entry list"
  | NoAccess string error

fun entry_name :: "entry \<Rightarrow> string" where
  "entry_name (File n c) = n"
| "entry_name (Dir n es) = n"
| "entry_name (NoAccess n err) = n"

fun is_dir :: "entry \<Rightarrow> bool" where
  "is_dir (File n c) = False"
| "is_dir (Dir n es) = True"
| "is_dir (NoAccess n err) = True"

text \<open>
  \<^verbatim>\<open>str(file_or_dir.absolute())\<close> for a child of the directory whose absolute path is
  \<open>d\<close>.
\<close>

definition joinpath :: "string \<Rightarrow> string \<Rightarrow> string" where
  "joinpath d n = (if d = ''/'' then d @ n else d @ ''/'' @ n)"

section \<open>Single-document loader\<close>

text \<open>\<^verbatim>\<open>yaml.safe_load(open(path_to_file, 'r'))\<close> on the entry found at the path.\<close>

fun safe_load_open :: "entry \<Rightarrow> string \<Rightarrow> error + pyval" where
  "safe_load_open (File n c) path_to_file = c"
| "safe_load_open (Dir n es) path_to_file = Inl (IsADirectoryError path_to_file)"
| "safe_load_open (NoAccess n err) path_to_file = Inl err"

definition read_yaml :: "entry \<Rightarrow> string \<Rightarrow> error + pyval" where
  "read_yaml e path_to_file =
     (if FILEextension_missing path_to_file = YAMLext then safe_load_open e path_to_file
      else Inl (YamlIOException (path_to_file @ '' is not a YAML'')))"

section \<open>Tree collector\<close>

type_synonym collection = "(string \<times> pyval) list"

text \<open>
  \<^verbatim>\<open>if bool(new_item): collection[file_or_dir.stem] = new_item\<close>. Assigning to an
  existing key replaces the value in place, a new key goes to the end.
\<close>

definition store :: "string \<Rightarrow> pyval \<Rightarrow> collection \<Rightarrow> collection" where
  "store k new_item coll = (if truthy new_item then AList.update k new_item coll else coll)"

text \<open>
  \<open>read_yaml_from_dir\<close> takes the entry found at \<open>path_to_dir\<close> and that path in absolute
  form; \<open>iterdir_loop\<close> is the body of its \<^verbatim>\<open>for\<close> loop, with the two local variables
  \<^verbatim>\<open>collection\<close> and \<^verbatim>\<open>failed_yaml\<close> passed along. \<open>Inl\<close> is a raised exception:
  \<^verbatim>\<open>iterdir()\<close> is called outside the \<^verbatim>\<open>try\<close>, so what it raises leaves the call
  whatever \<^verbatim>\<open>on_error_continue\<close> is.
\<close>

fun read_yaml_from_dir ::
    "entry \<Rightarrow> string \<Rightarrow> bool \<Rightarrow> int \<Rightarrow> error + (collection \<times> string list)"
  and iterdir_loop ::
    "entry list \<Rightarrow> string \<Rightarrow> bool \<Rightarrow> int \<Rightarrow> collection \<Rightarrow> string list
       \<Rightarrow> error + (collection \<times> string list)"
where
  "read_yaml_from_dir (File n c) path_to_dir on_error_continue max_depth =
     Inl (NotADirectoryError path_to_dir)"
| "read_yaml_from_dir (Dir n es) path_to_dir on_error_continue max_depth =
     iterdir_loop es path_to_dir on_error_continue max_depth [] []"
| "read_yaml_from_dir (NoAccess n err) path_to_dir on_error_continue max_depth = Inl err"
| "iterdir_loop [] path_to_dir on_error_continue max_depth coll failed_yaml =
     Inr (coll, failed_yaml)"
| "iterdir_loop (e # es) path_to_dir on_error_continue max_depth coll failed_yaml =
     (let f_path = joinpath path_to_dir (entry_name e) in
      if is_dir e \<and> max_depth > 0 then
        (case read_yaml_from_dir e f_path on_error_continue (max_depth - 1) of
           Inl err \<Rightarrow> Inl err
         | Inr (new_item, failed_here) \<Rightarrow>
             iterdir_loop es path_to_dir on_error_continue max_depth
               (store (stem f_path) (PDict new_item) coll) (failed_yaml @ failed_here))
      else if FILEextension_missing f_path = YAMLext then
        (case read_yaml e f_path of
           Inl err \<Rightarrow>
             if on_error_continue
             then iterdir_loop es path_to_dir on_error_continue max_depth
                    coll (failed_yaml @ [f_path])
             else Inl err
         | Inr new_item \<Rightarrow>
             iterdir_loop es path_to_dir on_error_continue max_depth
               (store (stem f_path) new_item coll) failed_yaml)
      else iterdir_loop es path_to_dir on_error_continue max_depth coll failed_yaml)"

text \<open>
  One pass through the loop body, for the proofs: what the body does to the two local
  variables for one child, or the exception that leaves the loop.
\<close>

definition visit ::
    "entry \<Rightarrow> string \<Rightarrow> bool \<Rightarrow> int \<Rightarrow> collection \<Rightarrow> string list
       \<Rightarrow> error + (collection \<times> string list)" where
  "visit e p oec d coll failed =
     (let f_path = joinpath p (entry_name e) in
      if is_dir e \<and> d > 0 then
        (case read_yaml_from_dir e f_path oec (d - 1) of
           Inl err \<Rightarrow> Inl err
         | Inr (new_item, failed_here) \<Rightarrow>
             Inr (store (stem f_path) (PDict new_item) coll, failed @ failed_here))
      else if FILEextension_missing f_path = YAMLext then
        (case read_yaml e f_path of
           Inl err \<Rightarrow> if oec then Inr (coll, failed @ [f_path]) else Inl err
         | Inr new_item \<Rightarrow> Inr (store (stem f_path) new_item coll, failed))
      else Inr (coll, failed))"

section \<open>What a traversal produces, child by child\<close>

text \<open>
  These functions are not the source's loop; they describe, child by child, what a
  traversal by the source meets and stores, so that the loop can be compared with them.

  \<open>load_failures\<close> lists, in traversal order, the path and the exception of every
  failure the traversal meets: a load that fails (an entry that is not a directory to be
  entered, whose path is classified as a document, and which the loader cannot open or
  parse), and a directory within the depth budget that cannot be listed. Entries below
  a directory that the depth budget cuts off are not reached.
\<close>

fun load_failures :: "entry list \<Rightarrow> string \<Rightarrow> int \<Rightarrow> (string \<times> error) list" where
  "load_failures [] p d = []"
| "load_failures (File n c # es) p d =
     (let f_path = joinpath p n in
      if FILEextension_missing f_path = YAMLext
      then (case read_yaml (File n c) f_path of Inl err \<Rightarrow> [(f_path, err)] | Inr v \<Rightarrow> [])
      else []) @ load_failures es p d"
| "load_failures (Dir n cs # es) p d =
     (let f_path = joinpath p n in
      if d > 0 then load_failures cs f_path (d - 1)
      else if FILEextension_missing f_path = YAMLext
      then (case read_yaml (Dir n cs) f_path of Inl err \<Rightarrow> [(f_path, err)] | Inr v \<Rightarrow> [])
      else []) @ load_failures es p d"
| "load_failures (NoAccess n e # es) p d =
     (let f_path = joinpath p n in
      if d > 0 then [(f_path, e)]
      else if FILEextension_missing f_path = YAMLext
      then (case read_yaml (NoAccess n e) f_path of
              Inl err \<Rightarrow> [(f_path, err)] | Inr v \<Rightarrow> [])
      else []) @ load_failures es p d"

text \<open>
  \<open>listing_failure\<close> is the exception of the first directory, in traversal order and
  within the depth budget, that cannot be listed, if there is one.
\<close>

fun listing_failure :: "entry list \<Rightarrow> string \<Rightarrow> int \<Rightarrow> error option" where
  "listing_failure [] p d = None"
| "listing_failure (File n c # es) p d = listing_failure es p d"
| "listing_failure (Dir n cs # es) p d =
     (if d > 0
      then (case listing_failure cs (joinpath p n) (d - 1) of
              Some e \<Rightarrow> Some e
            | None \<Rightarrow> listing_failure es p d)
      else listing_failure es p d)"
| "listing_failure (NoAccess n e # es) p d =
     (if d > 0 then Some e else listing_failure es p d)"

text \<open>Assigning a list of key-value pairs to a dictionary, one after the other.\<close>

definition assign :: "(string \<times> pyval) list \<Rightarrow> collection \<Rightarrow> collection" where
  "assign kvs coll = fold (\<lambda>(k, v). AList.update k v) kvs coll"

text \<open>
  \<open>loaded_entries\<close> lists, in traversal order, the key and the value of every child of a
  directory that has something to store, with the key the source uses, which is
  \<^verbatim>\<open>file_or_dir.stem\<close> for files and directories alike: a document that loads to a
  non-empty value, under its stem, and a subdirectory within the depth budget whose own
  collection is not empty, under the stem of its name (a directory \<^verbatim>\<open>v1.0\<close> is stored
  under \<^verbatim>\<open>v1\<close>, not under its base name).
\<close>

fun loaded_entries :: "entry list \<Rightarrow> string \<Rightarrow> int \<Rightarrow> (string \<times> pyval) list" where
  "loaded_entries [] p d = []"
| "loaded_entries (File n c # es) p d =
     (let f_path = joinpath p n in
      if FILEextension_missing f_path = YAMLext
      then (case read_yaml (File n c) f_path of
              Inl err \<Rightarrow> []
            | Inr v \<Rightarrow> if truthy v then [(stem f_path, v)] else [])
      else []) @ loaded_entries es p d"
| "loaded_entries (Dir n cs # es) p d =
     (let f_path = joinpath p n in
      if d > 0
      then (let sub = assign (loaded_entries cs f_path (d - 1)) [] in
            if sub \<noteq> [] then [(stem f_path, PDict sub)] else [])
      else []) @ loaded_entries es p d"
| "loaded_entries (NoAccess n e # es) p d = loaded_entries es p d"

section \<open>Facts about the path functions\<close>

lemma split_sep_chars: "p \<in> set (split_sep s) \<Longrightarrow> set p \<subseteq> set s"
proof (induction s arbitrary: p)
  case Nil
  then show ?case by simp
next
  case (Cons c cs)
  then show ?case
    by (cases "split_sep cs") (fastforce split: if_splits)+
qed

lemma path_name_chars: "set (path_name s) \<subseteq> set s"
proof (cases "path_parts s")
  case Nil
  then show ?thesis by (simp add: path_name_def)
next
  case (Cons a as)
  then have "last (path_parts s) \<in> set (path_parts s)" by simp
  then have "last (path_parts s) \<in> set (split_sep s)" by (simp add: path_parts_def)
  then show ?thesis using Cons split_sep_chars by (simp add: path_name_def)
qed

lemma rfind_from_absent: "c \<notin> set xs \<Longrightarrow> rfind_from c xs i found = found"
  by (induction xs arbitrary: i found) auto

lemma rfind_from_present:
  "c \<in> set xs \<Longrightarrow>
     i \<le> rfind_from c xs i found \<and>
     c \<notin> set (drop (nat (rfind_from c xs i found - i) + 1) xs)"
proof (induction xs arbitrary: i found)
  case Nil
  then show ?case by simp
next
  case (Cons x xs)
  show ?case
  proof (cases "c \<in> set xs")
    case True
    let ?r = "rfind_from c xs (i + 1) (if x = c then i else found)"
    from Cons.IH [OF True, of "i + 1" "if x = c then i else found"]
    have a: "i + 1 \<le> ?r" and b: "c \<notin> set (drop (nat (?r - (i + 1)) + 1) xs)" by auto
    from a have "nat (?r - i) = Suc (nat (?r - (i + 1)))" by simp
    with a b show ?thesis by simp
  next
    case False
    with Cons.prems have "x = c" by simp
    with False show ?thesis by (simp add: rfind_from_absent)
  qed
qed

lemma rfind_absent: "c \<notin> set s \<Longrightarrow> rfind s c = - 1"
  by (simp add: rfind_def rfind_from_absent)

lemma rfind_tail: "0 \<le> rfind s c \<Longrightarrow> c \<notin> set (drop (nat (rfind s c) + 1) s)"
proof -
  assume h: "0 \<le> rfind s c"
  have "c \<in> set s" using h rfind_absent [of c s] by force
  from rfind_from_present [OF this, of 0 "- 1"] show ?thesis by (simp add: rfind_def)
qed

lemma suffix_no_dot: "CHR ''.'' \<notin> set s \<Longrightarrow> suffix s = []"
proof -
  assume "CHR ''.'' \<notin> set s"
  then have "CHR ''.'' \<notin> set (path_name s)" using path_name_chars by blast
  then have "rfind (path_name s) CHR ''.'' = - 1" by (rule rfind_absent)
  then show ?thesis by (simp add: suffix_def)
qed

lemma rfind_from_at:
  "c \<in> set xs \<Longrightarrow>
     nat (rfind_from c xs i found - i) < length xs \<and>
     xs ! nat (rfind_from c xs i found - i) = c"
proof (induction xs arbitrary: i found)
  case Nil
  then show ?case by simp
next
  case (Cons x xs)
  show ?case
  proof (cases "c \<in> set xs")
    case True
    let ?r = "rfind_from c xs (i + 1) (if x = c then i else found)"
    from rfind_from_present [OF True, of "i + 1" "if x = c then i else found"]
    have a: "i + 1 \<le> ?r" by simp
    from Cons.IH [OF True, of "i + 1" "if x = c then i else found"]
    have b: "nat (?r - (i + 1)) < length xs" and c: "xs ! nat (?r - (i + 1)) = c" by auto
    from a have "nat (?r - i) = Suc (nat (?r - (i + 1)))" by simp
    with b c show ?thesis by simp
  next
    case False
    with Cons.prems have "x = c" by simp
    with False show ?thesis by (simp add: rfind_from_absent)
  qed
qed

lemma rfind_at: "0 \<le> rfind s c \<Longrightarrow> nat (rfind s c) < length s \<and> s ! nat (rfind s c) = c"
proof -
  assume h: "0 \<le> rfind s c"
  have "c \<in> set s" using h rfind_absent [of c s] by force
  from rfind_from_at [OF this, of 0 "- 1"] show ?thesis by (simp add: rfind_def)
qed

lemma rfind_zero: "rfind s c = 0 \<Longrightarrow> s = c # drop 1 s"
proof -
  assume z: "rfind s c = 0"
  then have "0 \<le> rfind s c" by simp
  from rfind_at [OF this] z have "0 < length s" and "s ! 0 = c" by simp_all
  then show ?thesis by (cases s) simp_all
qed

lemma extensionOf_no_dot: "CHR ''.'' \<notin> set (extensionOf p)"
  using rfind_tail [of "path_name p" "CHR ''.''"] by (simp add: extensionOf_def Let_def)

lemma FILEextension_no_dot:
  "CHR ''.'' \<notin> set s \<Longrightarrow> FILEextension_missing s = YAMLext \<longleftrightarrow> s \<in> set YAMLext_value"
  by (simp add: FILEextension_missing_def suffix_no_dot YAMLext_value_def)

section \<open>Facts about the loop\<close>

lemma iterdir_loop_Cons:
  "iterdir_loop (e # es) p oec d coll failed =
     (case visit e p oec d coll failed of
        Inl err \<Rightarrow> Inl err
      | Inr (coll', failed') \<Rightarrow> iterdir_loop es p oec d coll' failed')"
  unfolding visit_def iterdir_loop.simps Let_def
  by (simp split: sum.split prod.split)

declare iterdir_loop.simps(2) [simp del]

lemma iterdir_loop_append:
  "iterdir_loop (es1 @ es2) p oec d coll failed =
     (case iterdir_loop es1 p oec d coll failed of
        Inl err \<Rightarrow> Inl err
      | Inr (coll', failed') \<Rightarrow> iterdir_loop es2 p oec d coll' failed')"
proof (induction es1 arbitrary: coll failed)
  case Nil
  show ?case by simp
next
  case (Cons e es1)
  show ?case
    by (cases "visit e p oec d coll failed") (auto simp add: iterdir_loop_Cons Cons.IH)
qed

lemma set_update_subset: "set (AList.update k v al) \<subseteq> insert (k, v) (set al)"
  by (induction al) auto

lemma store_truthy:
  assumes "\<forall>(k, v) \<in> set coll. truthy v"
  shows "\<forall>(k, v) \<in> set (store k' v' coll). truthy v"
  using assms set_update_subset [of k' v' coll] by (auto simp add: store_def)

lemma visit_truthy:
  assumes "visit e p oec d coll failed = Inr (coll', failed')"
    and "\<forall>(k, v) \<in> set coll. truthy v"
  shows "\<forall>(k, v) \<in> set coll'. truthy v"
proof -
  from assms(1) have "coll' = coll \<or> (\<exists>k v. coll' = store k v coll)"
    by (auto simp add: visit_def Let_def split: if_splits sum.splits prod.splits)
  with assms(2) store_truthy show ?thesis by blast
qed

lemma iterdir_loop_truthy:
  "iterdir_loop es p oec d coll failed = Inr (coll', failed') \<Longrightarrow>
   \<forall>(k, v) \<in> set coll. truthy v \<Longrightarrow> \<forall>(k, v) \<in> set coll'. truthy v"
proof (induction es arbitrary: coll failed)
  case Nil
  then show ?case by simp
next
  case (Cons e es)
  show ?case
  proof (cases "visit e p oec d coll failed")
    case (Inl err)
    with Cons.prems(1) show ?thesis by (simp add: iterdir_loop_Cons)
  next
    case (Inr r)
    obtain c f where r: "r = (c, f)" by (cases r)
    from Inr r Cons.prems(1) have "iterdir_loop es p oec d c f = Inr (coll', failed')"
      by (simp add: iterdir_loop_Cons)
    moreover from Inr r Cons.prems(2) have "\<forall>(k, v) \<in> set c. truthy v"
      using visit_truthy by blast
    ultimately show ?thesis by (rule Cons.IH)
  qed
qed

lemma visit_empty_document:
  "\<not> truthy v \<Longrightarrow> visit (File m (Inr v)) p oec d coll failed = Inr (coll, failed)"
  by (simp add: visit_def Let_def read_yaml_def store_def)

lemma visit_nonpositive:
  "d \<le> 0 \<Longrightarrow> visit e p oec d coll failed = visit e p oec 0 coll failed"
  by (simp add: visit_def)

lemma iterdir_loop_nonpositive:
  "d \<le> 0 \<Longrightarrow> iterdir_loop es p oec d coll failed = iterdir_loop es p oec 0 coll failed"
  by (induction es arbitrary: coll failed)
     (simp_all add: iterdir_loop_Cons visit_nonpositive [of d] split: sum.split prod.split)

lemma visit_dir_cut:
  "d \<le> 0 \<Longrightarrow> visit (Dir n cs) p oec d coll failed = visit (Dir n cs') p oec d coll failed"
  by (simp add: visit_def read_yaml_def Let_def)

section \<open>The classifier\<close>

text \<open>
  Claim C4. The classifier is a total function on strings. On a bare suffix, that is a
  string without a dot (the empty string included), it answers \<open>YAMLext\<close> for exactly
  the two aliases \<^verbatim>\<open>yml\<close> and \<^verbatim>\<open>yaml\<close> and \<open>OTHERext\<close> for every other one; the
  comparison is by string equality, hence case-sensitive.
\<close>

theorem FILEextension_bare_suffix:
  "CHR ''.'' \<notin> set s \<Longrightarrow>
   FILEextension_missing s = (if s = ''yml'' \<or> s = ''yaml'' then YAMLext else OTHERext)"
  by (simp add: FILEextension_missing_def suffix_no_dot YAMLext_value_def)

theorem FILEextension_bare_suffix_witness:
  "CHR ''.'' \<notin> set ''yml'' \<and> FILEextension_missing ''yml'' = YAMLext \<and>
   CHR ''.'' \<notin> set ''yaml'' \<and> FILEextension_missing ''yaml'' = YAMLext \<and>
   CHR ''.'' \<notin> set ''YML'' \<and> FILEextension_missing ''YML'' = OTHERext \<and>
   CHR ''.'' \<notin> set [] \<and> FILEextension_missing [] = OTHERext"
  using FILEextension_bare_suffix [of "''yml''"] FILEextension_bare_suffix [of "''yaml''"]
    FILEextension_bare_suffix [of "''YML''"] FILEextension_bare_suffix [of "[]"]
  by simp

text \<open>
  Claim C5, as stated: the classifier gives the same answer on a path and on the
  extension of that path, the part after the final dot of the last component. This fails
  in two ways. The path \<^verbatim>\<open>yml\<close>, a file without extension whose whole name is an
  alias, is accepted as a bare extension, while its extension is empty. The path
  \<^verbatim>\<open>/conf/.yml\<close> has the extension \<^verbatim>\<open>yml\<close>, which is accepted, while the path is
  not: a name that begins with its only dot has no suffix for \<^verbatim>\<open>pathlib\<close>.
\<close>

theorem FILEextension_agreement_counterexample:
  "FILEextension_missing ''yml'' = YAMLext \<and>
   FILEextension_missing (extensionOf ''yml'') = OTHERext \<and>
   FILEextension_missing ''/conf/.yml'' = OTHERext \<and>
   FILEextension_missing (extensionOf ''/conf/.yml'') = YAMLext"
  by code_simp

text \<open>
  Claim C5, amended: for every path that is not itself one of the two aliases and whose
  last component is neither \<^verbatim>\<open>.yml\<close> nor \<^verbatim>\<open>.yaml\<close>, the classifier gives the same
  answer on the path and on its extension, the part after the final dot of the last
  component (trailing separators and \<^verbatim>\<open>.\<close> components not counting as components).
\<close>

theorem FILEextension_agreement:
  assumes "p \<notin> set YAMLext_value"
    and "path_name p \<noteq> ''.yml''" and "path_name p \<noteq> ''.yaml''"
  shows "FILEextension_missing p = FILEextension_missing (extensionOf p)"
proof -
  let ?name = "path_name p"
  let ?i = "rfind ?name CHR ''.''"
  have ext: "FILEextension_missing (extensionOf p) = YAMLext \<longleftrightarrow>
      extensionOf p \<in> set YAMLext_value"
    using extensionOf_no_dot by (rule FILEextension_no_dot)
  have path: "FILEextension_missing p = YAMLext \<longleftrightarrow>
      drop 1 (suffix p) \<in> set YAMLext_value"
    using assms(1) by (simp add: FILEextension_missing_def)
  have "drop 1 (suffix p) \<in> set YAMLext_value \<longleftrightarrow> extensionOf p \<in> set YAMLext_value"
  proof (cases "?i < 0")
    case True
    then show ?thesis by (simp add: suffix_def extensionOf_def Let_def)
  next
    case False
    show ?thesis
    proof (cases "?i = 0")
      case True
      from rfind_zero [OF True] have "?name = CHR ''.'' # extensionOf p"
        using True by (simp add: extensionOf_def Let_def)
      with assms(2,3) have "extensionOf p \<notin> set YAMLext_value"
        by (auto simp add: YAMLext_value_def)
      with True show ?thesis by (simp add: suffix_def Let_def YAMLext_value_def)
    next
      case nz: False
      with False have pos: "0 < ?i" by simp
      show ?thesis
      proof (cases "?i < int (length ?name) - 1")
        case True
        with pos show ?thesis by (simp add: suffix_def extensionOf_def Let_def)
      next
        case False
        with pos have "length ?name \<le> nat ?i + 1" by simp
        then have "drop (nat ?i + 1) ?name = []" by simp
        with False pos show ?thesis by (simp add: suffix_def extensionOf_def Let_def)
      qed
    qed
  qed
  with ext path show ?thesis
    by (cases "FILEextension_missing p"; cases "FILEextension_missing (extensionOf p)")
       simp_all
qed

theorem FILEextension_agreement_witness:
  "''/etc/app/conf.yaml'' \<notin> set YAMLext_value \<and>
   path_name ''/etc/app/conf.yaml'' = ''conf.yaml'' \<and>
   extensionOf ''/etc/app/conf.yaml'' = ''yaml'' \<and>
   FILEextension_missing ''yaml'' = YAMLext \<and>
   FILEextension_missing ''/etc/app/conf.yaml'' = YAMLext"
proof -
  have h1: "''/etc/app/conf.yaml'' \<notin> set YAMLext_value" by (simp add: YAMLext_value_def)
  have name: "path_name ''/etc/app/conf.yaml'' = ''conf.yaml''" by code_simp
  have h2: "path_name ''/etc/app/conf.yaml'' \<noteq> ''.yml''" unfolding name by simp
  have h3: "path_name ''/etc/app/conf.yaml'' \<noteq> ''.yaml''" unfolding name by simp
  have ext: "extensionOf ''/etc/app/conf.yaml'' = ''yaml''" by code_simp
  have bare: "FILEextension_missing ''yaml'' = YAMLext" by code_simp
  have "FILEextension_missing ''/etc/app/conf.yaml'' =
      FILEextension_missing (extensionOf ''/etc/app/conf.yaml'')"
    using h1 h2 h3 by (rule FILEextension_agreement)
  also have "\<dots> = YAMLext" by (simp only: ext bare)
  finally have "FILEextension_missing ''/etc/app/conf.yaml'' = YAMLext" .
  with h1 name ext bare show ?thesis by blast
qed

section \<open>The collector\<close>

text \<open>
  Claim C3. Every collection returned by the collector, by the top call or by a nested
  call for a subdirectory alike, holds non-empty values only: a key is present only with
  a value whose truth value is true. A document that loads to an empty value leaves no
  trace: with or without it in the directory the call returns the same collection, the
  same failure list or the same exception, whether errors are tolerated or not.
\<close>

theorem collection_values_nonempty:
  "(read_yaml_from_dir root p oec d = Inr (coll, failed) \<longrightarrow>
      (\<forall>(k, v) \<in> set coll. truthy v)) \<and>
   (\<not> truthy v \<longrightarrow>
      read_yaml_from_dir (Dir n (es1 @ File m (Inr v) # es2)) p oec d =
      read_yaml_from_dir (Dir n (es1 @ es2)) p oec d)"
proof (intro conjI impI)
  assume ok: "read_yaml_from_dir root p oec d = Inr (coll, failed)"
  show "\<forall>(k, v) \<in> set coll. truthy v"
  proof (cases root)
    case (File n' c)
    with ok show ?thesis by simp
  next
    case (Dir n' es)
    with ok have "iterdir_loop es p oec d [] [] = Inr (coll, failed)" by simp
    then show ?thesis by (rule iterdir_loop_truthy) simp
  next
    case (NoAccess n' e)
    with ok show ?thesis by simp
  qed
next
  assume "\<not> truthy v"
  then show "read_yaml_from_dir (Dir n (es1 @ File m (Inr v) # es2)) p oec d =
      read_yaml_from_dir (Dir n (es1 @ es2)) p oec d"
    by (simp add: iterdir_loop_append iterdir_loop_Cons visit_empty_document
        split: sum.split prod.split)
qed

theorem collection_values_nonempty_witness:
  "read_yaml_from_dir (Dir ''conf'' [File ''a.yml'' (Inr (PDict [(''x'', PInt 1)]))])
     ''/conf'' False 3 = Inr ([(''a'', PDict [(''x'', PInt 1)])], []) \<and>
   truthy (PDict [(''x'', PInt 1)]) \<and>
   \<not> truthy (PDict []) \<and>
   read_yaml_from_dir
     (Dir ''conf'' ([File ''a.yml'' (Inr (PDict [(''x'', PInt 1)]))] @
        File ''empty.yml'' (Inr (PDict [])) # [])) ''/conf'' False 3 =
   read_yaml_from_dir
     (Dir ''conf'' ([File ''a.yml'' (Inr (PDict [(''x'', PInt 1)]))] @ [])) ''/conf'' False 3"
proof -
  have run: "read_yaml_from_dir (Dir ''conf'' [File ''a.yml'' (Inr (PDict [(''x'', PInt 1)]))])
     ''/conf'' False 3 = Inr ([(''a'', PDict [(''x'', PInt 1)])], [])"
    by code_simp
  have empty: "\<not> truthy (PDict [])" by simp
  note inst = collection_values_nonempty
    [of "Dir ''conf'' [File ''a.yml'' (Inr (PDict [(''x'', PInt 1)]))]" "''/conf''" False 3
      "[(''a'', PDict [(''x'', PInt 1)])]" "[]" "PDict []" "''conf''"
      "[File ''a.yml'' (Inr (PDict [(''x'', PInt 1)]))]" "''empty.yml''" "[]"]
  from inst run have "\<forall>(k, v) \<in> set [(''a'', PDict [(''x'', PInt 1)])]. truthy v"
    by blast
  then have stored: "truthy (PDict [(''x'', PInt 1)])" by simp
  from inst empty have same: "read_yaml_from_dir
     (Dir ''conf'' ([File ''a.yml'' (Inr (PDict [(''x'', PInt 1)]))] @
        File ''empty.yml'' (Inr (PDict [])) # [])) ''/conf'' False 3 =
   read_yaml_from_dir
     (Dir ''conf'' ([File ''a.yml'' (Inr (PDict [(''x'', PInt 1)]))] @ [])) ''/conf'' False 3"
    by blast
  from run stored empty same show ?thesis by blast
qed

text \<open>
  Claim C6. A negative depth budget behaves as the budget zero: the call returns what it
  returns for \<open>max_depth = 0\<close>, and no subdirectory is entered, so the result does not
  depend on what a subdirectory contains. Files of the directory itself are still read.
\<close>

theorem negative_depth_as_zero:
  "d < 0 \<Longrightarrow>
   read_yaml_from_dir root p oec d = read_yaml_from_dir root p oec 0 \<and>
   read_yaml_from_dir (Dir r (es1 @ Dir n cs # es2)) p oec d =
     read_yaml_from_dir (Dir r (es1 @ Dir n cs' # es2)) p oec d"
proof
  assume neg: "d < 0"
  then show "read_yaml_from_dir root p oec d = read_yaml_from_dir root p oec 0"
    by (cases root) (simp_all add: iterdir_loop_nonpositive [of d])
  from neg have "d \<le> 0" by simp
  then show "read_yaml_from_dir (Dir r (es1 @ Dir n cs # es2)) p oec d =
      read_yaml_from_dir (Dir r (es1 @ Dir n cs' # es2)) p oec d"
    by (simp add: iterdir_loop_append iterdir_loop_Cons visit_dir_cut [of d n cs p oec _ _ cs']
        split: sum.split prod.split)
qed

theorem negative_depth_as_zero_witness:
  "(- 1 :: int) < 0 \<and>
   read_yaml_from_dir
     (Dir ''conf'' [File ''a.yml'' (Inr (PStr ''v'')),
        Dir ''sub'' [File ''b.yml'' (Inr (PStr ''w''))]]) ''/conf'' False (- 1) =
   Inr ([(''a'', PStr ''v'')], []) \<and>
   read_yaml_from_dir
     (Dir ''conf'' [File ''a.yml'' (Inr (PStr ''v'')),
        Dir ''sub'' [File ''b.yml'' (Inr (PStr ''w''))]]) ''/conf'' False 0 =
   Inr ([(''a'', PStr ''v'')], [])"
proof -
  have zero: "read_yaml_from_dir
     (Dir ''conf'' [File ''a.yml'' (Inr (PStr ''v'')),
        Dir ''sub'' [File ''b.yml'' (Inr (PStr ''w''))]]) ''/conf'' False 0 =
   Inr ([(''a'', PStr ''v'')], [])"
    by code_simp
  have neg: "(- 1 :: int) < 0" by simp
  from negative_depth_as_zero [OF neg,
      of "Dir ''conf'' [File ''a.yml'' (Inr (PStr ''v'')),
        Dir ''sub'' [File ''b.yml'' (Inr (PStr ''w''))]]" "''/conf''" False] zero neg
  show ?thesis by simp
qed

text \<open>
  Claim C7 at a directory whose name ends in a recognised suffix: with the depth budget
  used up the directory is not entered, but its path is classified as a document and
  handed to the loader, which fails to open it. Without tolerance the call raises, with
  tolerance the directory's path is put on the failure list.
\<close>

theorem depth_excluded_directory_named_as_document:
  "read_yaml_from_dir (Dir ''conf'' [Dir ''extra.yml'' []]) ''/conf'' False 0 =
     Inl (IsADirectoryError ''/conf/extra.yml'') \<and>
   read_yaml_from_dir (Dir ''conf'' [Dir ''extra.yml'' []]) ''/conf'' True 0 =
     Inr ([], [''/conf/extra.yml''])"
  by code_simp

text \<open>
  Claim C8 at a root that is a file: the loop over \<^verbatim>\<open>iterdir()\<close> is entered without a
  test of the root, so the call raises \<^verbatim>\<open>NotADirectoryError\<close> whatever the file's name
  and content; the file is neither loaded nor rejected by its extension.
\<close>

theorem single_file_root_not_loaded:
  "read_yaml_from_dir (File ''a.yml'' (Inr (PDict [(''x'', PInt 1)]))) ''/conf/a.yml'' oec d =
     Inl (NotADirectoryError ''/conf/a.yml'') \<and>
   read_yaml_from_dir (File ''notes.txt'' c) ''/conf/notes.txt'' oec d =
     Inl (NotADirectoryError ''/conf/notes.txt'')"
  by simp

section \<open>The loop against the expected outcome\<close>

lemma assign_Nil [simp]: "assign [] coll = coll"
  by (simp add: assign_def)

lemma assign_Cons [simp]: "assign ((k, v) # kvs) coll = assign kvs (AList.update k v coll)"
  by (simp add: assign_def)

lemma assign_append: "assign (xs @ ys) coll = assign ys (assign xs coll)"
  by (simp add: assign_def)

lemma read_yaml_Dir:
  "read_yaml (Dir n cs) f =
     Inl (if FILEextension_missing f = YAMLext then IsADirectoryError f
          else YamlIOException (f @ '' is not a YAML''))"
  by (simp add: read_yaml_def)

lemma read_yaml_NoAccess:
  "read_yaml (NoAccess n e) f =
     Inl (if FILEextension_missing f = YAMLext then e
          else YamlIOException (f @ '' is not a YAML''))"
  by (simp add: read_yaml_def)

lemma tolerant_loop:
  "iterdir_loop es p True d coll failed =
     (case listing_failure es p d of
        Some e \<Rightarrow> Inl e
      | None \<Rightarrow>
          Inr (assign (loaded_entries es p d) coll, failed @ map fst (load_failures es p d)))"
proof (induction es p d arbitrary: coll failed rule: loaded_entries.induct)
  case (1 p d)
  show ?case by simp
next
  case (2 n c es p d)
  show ?case
    by (cases "read_yaml (File n c) (joinpath p n)")
       (simp_all add: iterdir_loop_Cons visit_def Let_def "2.IH" assign_append store_def
          split: option.split)
next
  case (3 n cs es p d)
  show ?case
  proof (cases "d > 0")
    case True
    with "3.IH"(1) [OF refl True]
    have sub: "iterdir_loop cs (joinpath p n) True (d - 1) [] [] =
      (case listing_failure cs (joinpath p n) (d - 1) of
         Some e \<Rightarrow> Inl e
       | None \<Rightarrow>
           Inr (assign (loaded_entries cs (joinpath p n) (d - 1)) [],
                map fst (load_failures cs (joinpath p n) (d - 1))))"
      by (simp cong: option.case_cong)
    show ?thesis
      using True
      by (cases "listing_failure cs (joinpath p n) (d - 1)")
         (simp_all add: iterdir_loop_Cons visit_def Let_def sub "3.IH"(2) assign_append
            store_def split: option.split)
  next
    case False
    then show ?thesis
      by (simp add: iterdir_loop_Cons visit_def Let_def "3.IH"(2) read_yaml_Dir
          split: option.split)
  qed
next
  case (4 n e es p d)
  show ?case
  proof (cases "d > 0")
    case True
    then show ?thesis by (simp add: iterdir_loop_Cons visit_def Let_def)
  next
    case False
    then show ?thesis
      by (simp add: iterdir_loop_Cons visit_def Let_def "4.IH" read_yaml_NoAccess
          split: option.split)
  qed
qed

lemma strict_loop:
  "iterdir_loop es p False d coll failed =
     (case load_failures es p d of
        [] \<Rightarrow> Inr (assign (loaded_entries es p d) coll, failed)
      | x # xs \<Rightarrow> Inl (snd x))"
proof (induction es p d arbitrary: coll failed rule: loaded_entries.induct)
  case (1 p d)
  show ?case by simp
next
  case (2 n c es p d)
  show ?case
    by (cases "read_yaml (File n c) (joinpath p n)")
       (simp_all add: iterdir_loop_Cons visit_def Let_def "2.IH" assign_append store_def
          split: list.split)
next
  case (3 n cs es p d)
  show ?case
  proof (cases "d > 0")
    case True
    with "3.IH"(1) [OF refl True]
    have sub: "iterdir_loop cs (joinpath p n) False (d - 1) [] [] =
      (case load_failures cs (joinpath p n) (d - 1) of
        [] \<Rightarrow> Inr (assign (loaded_entries cs (joinpath p n) (d - 1)) [], [])
      | x # xs \<Rightarrow> Inl (snd x))"
      by simp
    show ?thesis
      using True
      by (cases "load_failures cs (joinpath p n) (d - 1)")
         (simp_all add: iterdir_loop_Cons visit_def Let_def sub "3.IH"(2) assign_append
            store_def split: list.split)
  next
    case False
    then show ?thesis
      by (simp add: iterdir_loop_Cons visit_def Let_def "3.IH"(2) read_yaml_Dir
          split: list.split)
  qed
next
  case (4 n e es p d)
  show ?case
  proof (cases "d > 0")
    case True
    then show ?thesis by (simp add: iterdir_loop_Cons visit_def Let_def)
  next
    case False
    then show ?thesis
      by (simp add: iterdir_loop_Cons visit_def Let_def "4.IH" read_yaml_NoAccess
          split: list.split)
  qed
qed

lemma listing_failure_Cons:
  "listing_failure (e # es) p d =
     (case listing_failure [e] p d of Some x \<Rightarrow> Some x | None \<Rightarrow> listing_failure es p d)"
  by (cases e) (simp_all split: option.split)

lemma listing_failure_None:
  "listing_failure es p d = None \<longleftrightarrow> (\<forall>e \<in> set es. listing_failure [e] p d = None)"
proof (induction es)
  case Nil
  show ?case by simp
next
  case (Cons e es)
  show ?case
    by (subst listing_failure_Cons) (simp add: Cons.IH split: option.split)
qed

lemma loaded_entries_Cons:
  "loaded_entries (e # es) p d = loaded_entries [e] p d @ loaded_entries es p d"
  by (cases e) simp_all

lemma load_failures_Cons:
  "load_failures (e # es) p d = load_failures [e] p d @ load_failures es p d"
  by (cases e) simp_all

lemma loaded_entries_concat:
  "loaded_entries es p d = concat (map (\<lambda>e. loaded_entries [e] p d) es)"
  by (induction es) (simp, subst loaded_entries_Cons, simp)

lemma load_failures_concat:
  "load_failures es p d = concat (map (\<lambda>e. load_failures [e] p d) es)"
  by (induction es) (simp, subst load_failures_Cons, simp)

lemma mset_concat_map_cong:
  "mset xs = mset ys \<Longrightarrow> mset (concat (map f xs)) = mset (concat (map f ys))"
proof -
  assume h: "mset xs = mset ys"
  have "\<And>zs. mset (concat (map f zs)) = (\<Sum>x\<in>#mset zs. mset (f x))"
    by (induct_tac zs) simp_all
  with h show ?thesis by simp
qed

lemma map_of_assign: "map_of (assign kvs coll) = map_of coll ++ map_of (rev kvs)"
  by (induction kvs arbitrary: coll) (auto simp add: update_conv')

lemma map_of_assign_permuted:
  assumes "mset kvs = mset kvs'" and "distinct (map fst kvs)"
  shows "map_of (assign kvs coll) = map_of (assign kvs' coll)"
proof -
  from assms(1) have "mset (map fst kvs) = mset (map fst kvs')" by simp
  with assms(2) have d': "distinct (map fst kvs')" by (metis mset_eq_imp_distinct_iff)
  from assms(1) have "set kvs = set kvs'" by (rule mset_eq_setD)
  then have "set (rev kvs) = set (rev kvs')" by simp
  moreover from assms(2) have "distinct (map fst (rev kvs))" by (simp add: rev_map [symmetric])
  moreover from d' have "distinct (map fst (rev kvs'))" by (simp add: rev_map [symmetric])
  ultimately have "map_of (rev kvs) = map_of (rev kvs')" by (simp add: map_of_inject_set)
  then show ?thesis by (simp add: map_of_assign)
qed

section \<open>Strict and tolerant mode\<close>

text \<open>
  Claim C1. Without tolerance the call is all or nothing: as soon as the traversal meets
  a recognised document that cannot be read or parsed, at whatever level of nesting, the
  top call raises that exception (the first one in traversal order), so that no
  collection and no failure list is returned. The documents the traversal meets are
  those of \<open>load_failures\<close>: documents below a directory that the depth budget cuts off
  are never loaded. A directory within the depth budget that cannot be listed raises as
  well and is counted among the failures.
\<close>

theorem strict_mode_all_or_nothing:
  "load_failures es p d \<noteq> [] \<Longrightarrow>
   read_yaml_from_dir (Dir n es) p False d = Inl (snd (hd (load_failures es p d)))"
  by (cases "load_failures es p d") (simp_all add: strict_loop)

theorem strict_mode_all_or_nothing_witness:
  "load_failures
     [File ''a.yml'' (Inr (PDict [(''x'', PInt 1)])),
      Dir ''sub'' [Dir ''deep'' [File ''bad.yaml'' (Inl (YAMLError ''bad indentation''))]],
      File ''z.yml'' (Inl (OSError ''Permission denied''))] ''/conf'' 3 \<noteq> [] \<and>
   read_yaml_from_dir
     (Dir ''conf''
       [File ''a.yml'' (Inr (PDict [(''x'', PInt 1)])),
        Dir ''sub'' [Dir ''deep'' [File ''bad.yaml'' (Inl (YAMLError ''bad indentation''))]],
        File ''z.yml'' (Inl (OSError ''Permission denied''))]) ''/conf'' False 3 =
   Inl (YAMLError ''bad indentation'')"
proof -
  have lf: "load_failures
     [File ''a.yml'' (Inr (PDict [(''x'', PInt 1)])),
      Dir ''sub'' [Dir ''deep'' [File ''bad.yaml'' (Inl (YAMLError ''bad indentation''))]],
      File ''z.yml'' (Inl (OSError ''Permission denied''))] ''/conf'' 3 =
   [(''/conf/sub/deep/bad.yaml'', YAMLError ''bad indentation''),
    (''/conf/z.yml'', OSError ''Permission denied'')]"
    by code_simp
  have ne: "load_failures
     [File ''a.yml'' (Inr (PDict [(''x'', PInt 1)])),
      Dir ''sub'' [Dir ''deep'' [File ''bad.yaml'' (Inl (YAMLError ''bad indentation''))]],
      File ''z.yml'' (Inl (OSError ''Permission denied''))] ''/conf'' 3 \<noteq> []"
    unfolding lf by simp
  have "read_yaml_from_dir
     (Dir ''conf''
       [File ''a.yml'' (Inr (PDict [(''x'', PInt 1)])),
        Dir ''sub'' [Dir ''deep'' [File ''bad.yaml'' (Inl (YAMLError ''bad indentation''))]],
        File ''z.yml'' (Inl (OSError ''Permission denied''))]) ''/conf'' False 3 =
     Inl (snd (hd (load_failures
       [File ''a.yml'' (Inr (PDict [(''x'', PInt 1)])),
        Dir ''sub'' [Dir ''deep'' [File ''bad.yaml'' (Inl (YAMLError ''bad indentation''))]],
        File ''z.yml'' (Inl (OSError ''Permission denied''))] ''/conf'' 3)))"
    using ne by (rule strict_mode_all_or_nothing)
  also have "\<dots> = Inl (YAMLError ''bad indentation'')"
    unfolding lf by simp
  finally show ?thesis using ne by blast
qed




section \<open>Enumeration order\<close>

text \<open>
  Claim C9, as stated: the children of a directory are enumerated in an order that does
  not depend on the order in which the file system yields them, so that the result is
  the same on every run. The loop takes the children as \<^verbatim>\<open>iterdir()\<close> yields them and
  never sorts: the same directory, listed in two orders, gives two collections when a
  later child overwrites the key of an earlier one.
\<close>

theorem enumeration_order_counterexample:
  "read_yaml_from_dir
     (Dir ''conf'' [File ''a.yml'' (Inr (PInt 1)), File ''a.yaml'' (Inr (PInt 2))])
     ''/conf'' False 3 = Inr ([(''a'', PInt 2)], []) \<and>
   read_yaml_from_dir
     (Dir ''conf'' [File ''a.yaml'' (Inr (PInt 2)), File ''a.yml'' (Inr (PInt 1))])
     ''/conf'' False 3 = Inr ([(''a'', PInt 1)], [])"
  by code_simp

text \<open>
  Claim C9, amended: the children are processed in the order in which the file system
  yields them. If two listings of the root hold the same children in a different order,
  and no two children of the root produce the same key, then both calls raise or both
  return, and then with the same key-value mapping and the same failed paths up to their
  order.
\<close>

theorem enumeration_order:
  assumes "mset es = mset es'" and "distinct (map fst (loaded_entries es p d))"
  shows "(\<exists>err err'. read_yaml_from_dir (Dir n es) p oec d = Inl err \<and>
            read_yaml_from_dir (Dir n es') p oec d = Inl err') \<or>
         (\<exists>c f c' f'. read_yaml_from_dir (Dir n es) p oec d = Inr (c, f) \<and>
            read_yaml_from_dir (Dir n es') p oec d = Inr (c', f') \<and>
            map_of c = map_of c' \<and> mset f = mset f')"
proof -
  have le: "mset (loaded_entries es p d) = mset (loaded_entries es' p d)"
    using assms(1) loaded_entries_concat [of es p d] loaded_entries_concat [of es' p d]
      mset_concat_map_cong [of es es' "\<lambda>e. loaded_entries [e] p d"] by simp
  have lf: "mset (load_failures es p d) = mset (load_failures es' p d)"
    using assms(1) load_failures_concat [of es p d] load_failures_concat [of es' p d]
      mset_concat_map_cong [of es es' "\<lambda>e. load_failures [e] p d"] by simp
  from le assms(2)
  have m: "map_of (assign (loaded_entries es p d) []) =
      map_of (assign (loaded_entries es' p d) [])"
    by (rule map_of_assign_permuted)
  from lf have f: "mset (map fst (load_failures es p d)) =
      mset (map fst (load_failures es' p d))"
    by (metis mset_map)
  from lf have e: "load_failures es p d = [] \<longleftrightarrow> load_failures es' p d = []"
    by (metis mset_zero_iff)
  from assms(1) have "set es = set es'" by (rule mset_eq_setD)
  then have l: "listing_failure es p d = None \<longleftrightarrow> listing_failure es' p d = None"
    using listing_failure_None [of es p d] listing_failure_None [of es' p d] by simp
  show ?thesis
  proof (cases oec)
    case True
    show ?thesis
    proof (cases "listing_failure es p d")
      case None
      with l have "listing_failure es' p d = None" by simp
      with None True m f show ?thesis by (simp add: tolerant_loop)
    next
      case (Some e)
      with l obtain e' where "listing_failure es' p d = Some e'" by auto
      with Some True show ?thesis by (simp add: tolerant_loop)
    qed
  next
    case False
    with m e show ?thesis
      by (cases "load_failures es p d"; cases "load_failures es' p d")
         (simp_all add: strict_loop)
  qed
qed

theorem enumeration_order_witness:
  "mset [File ''a.yml'' (Inr (PInt 1)), File ''b.yaml'' (Inl (YAMLError ''bad indentation'')),
         File ''c.yml'' (Inr (PInt 3))] =
   mset [File ''c.yml'' (Inr (PInt 3)), File ''b.yaml'' (Inl (YAMLError ''bad indentation'')),
         File ''a.yml'' (Inr (PInt 1))] \<and>
   distinct (map fst (loaded_entries
     [File ''a.yml'' (Inr (PInt 1)), File ''b.yaml'' (Inl (YAMLError ''bad indentation'')),
      File ''c.yml'' (Inr (PInt 3))] ''/conf'' 3)) \<and>
   map_of [(''a'', PInt 1), (''c'', PInt 3)] = map_of [(''c'', PInt 3), (''a'', PInt 1)]"
proof -
  let ?es = "[File ''a.yml'' (Inr (PInt 1)), File ''b.yaml'' (Inl (YAMLError ''bad indentation'')),
         File ''c.yml'' (Inr (PInt 3))]"
  let ?es' = "[File ''c.yml'' (Inr (PInt 3)), File ''b.yaml'' (Inl (YAMLError ''bad indentation'')),
         File ''a.yml'' (Inr (PInt 1))]"
  have h1: "mset ?es = mset ?es'" by simp
  have le: "loaded_entries ?es ''/conf'' 3 = [(''a'', PInt 1), (''c'', PInt 3)]"
    by code_simp
  have h2: "distinct (map fst (loaded_entries ?es ''/conf'' 3))"
    unfolding le by simp
  have r: "read_yaml_from_dir (Dir ''conf'' ?es) ''/conf'' True 3 =
      Inr ([(''a'', PInt 1), (''c'', PInt 3)], [''/conf/b.yaml''])"
    by code_simp
  have r': "read_yaml_from_dir (Dir ''conf'' ?es') ''/conf'' True 3 =
      Inr ([(''c'', PInt 3), (''a'', PInt 1)], [''/conf/b.yaml''])"
    by code_simp
  from enumeration_order [OF h1 h2, of "''conf''" True] r r'
  have "map_of [(''a'', PInt 1), (''c'', PInt 3)] = map_of [(''c'', PInt 3), (''a'', PInt 1)]"
    by simp
  with h1 h2 show ?thesis by blast
qed

end
